theory Spec2Isabelle
  imports Main
begin

section \<open>Python strings and lists\<close>

text \<open>
  The program is \<^verbatim>\<open>artists.py\<close>. A Python \<^verbatim>\<open>str\<close> is modelled as a
  \<^typ>\<open>string\<close> whose characters stand for the code points 0 to 255; the tables below
  (white space, punctuation, upper case) are Python's, cut to that range.
\<close>

text \<open>The characters \<^verbatim>\<open>str.split()\<close> separates at: those with \<^verbatim>\<open>str.isspace\<close>.\<close>

definition whitespace :: "char \<Rightarrow> bool" where
  "whitespace c \<longleftrightarrow>
     c \<in> set [CHR 0x09, CHR 0x0A, CHR 0x0B, CHR 0x0C, CHR 0x0D, CHR 0x1C, CHR 0x1D,
              CHR 0x1E, CHR 0x1F, CHR 0x20, CHR 0x85, CHR 0xA0]"

text \<open>\<^verbatim>\<open>string.punctuation\<close>: the 32 ASCII punctuation characters.\<close>

definition punctuation :: string where
  "punctuation =
     ''!'' @ [CHR 0x22] @ ''#$%&'' @ [CHR 0x27] @ ''()*+,-./:;<=>?@['' @ [CHR 0x5C]
       @ '']^_'' @ [CHR 0x60] @ ''{|}~''"

text \<open>\<^verbatim>\<open>string.ascii_uppercase\<close>.\<close>

definition ascii_uppercase :: string where
  "ascii_uppercase = ''ABCDEFGHIJKLMNOPQRSTUVWXYZ''"

text \<open>
  \<^verbatim>\<open>s.split()\<close> with no argument: skip white space, take the run of other characters
  that follows as a token, and go on behind it. No token is empty.
\<close>

function str_split :: "string \<Rightarrow> string list" where
  "str_split s =
     (case dropWhile whitespace s of
        [] \<Rightarrow> []
      | c # cs \<Rightarrow>
          takeWhile (\<lambda>x. \<not> whitespace x) (c # cs)
            # str_split (dropWhile (\<lambda>x. \<not> whitespace x) (c # cs)))"
  by pat_completeness auto

termination str_split
proof (relation "measure length")
  show "wf (measure length)" by simp
next
  fix s :: string and c cs
  assume d: "dropWhile whitespace s = c # cs"
  have "\<not> whitespace c"
    using d hd_dropWhile [of whitespace s] by simp
  then have "dropWhile (\<lambda>x. \<not> whitespace x) (c # cs) = dropWhile (\<lambda>x. \<not> whitespace x) cs"
    by simp
  moreover have "length (dropWhile (\<lambda>x. \<not> whitespace x) cs) \<le> length cs"
    by (rule length_dropWhile_le)
  moreover have "length cs < length (dropWhile whitespace s)"
    using d by simp
  moreover have "length (dropWhile whitespace s) \<le> length s"
    by (rule length_dropWhile_le)
  ultimately show "(dropWhile (\<lambda>x. \<not> whitespace x) (c # cs), s) \<in> measure length"
    by simp
qed

declare str_split.simps [simp del]

text \<open>\<^verbatim>\<open>s.strip(chars)\<close>: drop the characters of \<open>chars\<close> from both ends.\<close>

definition str_strip :: "string \<Rightarrow> string \<Rightarrow> string" where
  "str_strip chars s =
     rev (dropWhile (\<lambda>c. c \<in> set chars) (rev (dropWhile (\<lambda>c. c \<in> set chars) s)))"

text \<open>
  \<^verbatim>\<open>s.lower()\<close>: the upper-case letters below 256 are A to Z and the Latin-1 letters
  0xC0 to 0xDE without the multiplication sign 0xD7; each has its lower case 32 above.
\<close>

definition lower_char :: "char \<Rightarrow> char" where
  "lower_char c =
     (let n = (of_char c :: nat) in
      if (65 \<le> n \<and> n \<le> 90) \<or> (192 \<le> n \<and> n \<le> 214) \<or> (216 \<le> n \<and> n \<le> 222)
      then char_of (n + 32) else c)"

definition str_lower :: "string \<Rightarrow> string" where
  "str_lower s = map lower_char s"

text \<open>
  Exceptions. \<open>WikipediaException cls\<close> is an instance of
  \<^verbatim>\<open>wikipedia.WikipediaException\<close> or of its subclass named \<open>cls\<close>;
  \<open>OtherException cls\<close> is an instance of a class \<open>cls\<close> that derives neither from it
  nor from \<^verbatim>\<open>IndexError\<close> nor from \<^verbatim>\<open>TypeError\<close>.
\<close>

datatype exception =
  IndexError | TypeError | WikipediaException string | OtherException string

text \<open>\<^verbatim>\<open>xs[i]\<close> for an index that is not negative.\<close>

definition getitem :: "'a list \<Rightarrow> nat \<Rightarrow> exception + 'a" where
  "getitem xs i = (if i < length xs then Inr (xs ! i) else Inl IndexError)"

section \<open>The search key of a display name\<close>

text \<open>
  Lines 66 to 73 of \<^verbatim>\<open>write_data\<close>: the value of the variable \<^verbatim>\<open>wiki_name\<close>.
  The \<^verbatim>\<open>try\<close> block reads token 1, then token 0; its handler catches
  \<^verbatim>\<open>IndexError\<close> only and reads token 0 again, outside any handler.
\<close>

definition wiki_name :: "string \<Rightarrow> exception + string" where
  "wiki_name name_content =
     (let list_first_last_name = str_split name_content in
      case (case getitem list_first_last_name 1 of
              Inl e \<Rightarrow> Inl e
            | Inr first_name \<Rightarrow>
                (case getitem list_first_last_name 0 of
                   Inl e \<Rightarrow> Inl e
                 | Inr last_name \<Rightarrow>
                     Inr (first_name @ '' '' @ str_strip punctuation last_name))) of
        Inl IndexError \<Rightarrow>
          (case getitem list_first_last_name 0 of
             Inl e \<Rightarrow> Inl e
           | Inr only_name \<Rightarrow> Inr (str_strip punctuation only_name))
      | Inl e \<Rightarrow> Inl e
      | Inr key \<Rightarrow> Inr key)"

section \<open>Is the page one of an artist?\<close>

text \<open>What the program reads of a \<^verbatim>\<open>wikipedia.page\<close> object.\<close>

record wiki_page =
  title :: string
  categories :: "string list"
  summary :: string

definition artist_keywords :: "string set" where
  "artist_keywords = {''art'', ''artist'', ''sculptor'', ''painter''}"

text \<open>The inner loop of \<^verbatim>\<open>check_if_artist\<close>, over the words of one category.\<close>

fun words_have_keyword :: "string list \<Rightarrow> bool" where
  "words_have_keyword [] = False"
| "words_have_keyword (word # words) =
     (if str_lower word \<in> artist_keywords then True else words_have_keyword words)"

text \<open>The outer loop, over the categories; falling out of it returns \<^verbatim>\<open>False\<close>.\<close>

fun categories_have_keyword :: "string list \<Rightarrow> bool" where
  "categories_have_keyword [] = False"
| "categories_have_keyword (category # list_of_categories) =
     (if words_have_keyword (str_split category) then True
      else categories_have_keyword list_of_categories)"

definition check_if_artist :: "wiki_page \<Rightarrow> bool" where
  "check_if_artist wp = categories_have_keyword (categories wp)"

section \<open>The summary of a search key\<close>

definition no_entry :: string where
  "no_entry = ''No Wikipedia Entry Available for this artist''"

text \<open>
  Lines 76 to 84 of \<^verbatim>\<open>write_data\<close>: the value of the variable \<^verbatim>\<open>wiki_summary\<close>.
  The library call \<^verbatim>\<open>wikipedia.page\<close> is the parameter \<open>page\<close>: it returns the page of
  a title or raises, and its answer to a title is taken to be the same all through a run.
  The page comes with its title, categories and summary. The handler catches
  \<^verbatim>\<open>wikipedia.WikipediaException\<close> and its subclasses; any other exception leaves
  \<^verbatim>\<open>write_data\<close>.
\<close>

definition wiki_summary :: "(string \<Rightarrow> exception + wiki_page) \<Rightarrow> string \<Rightarrow> exception + string" where
  "wiki_summary page key =
     (case page key of
        Inr wp \<Rightarrow>
          Inr (if str_lower (title wp) = str_lower key \<or> check_if_artist wp
               then summary wp else no_entry)
      | Inl (WikipediaException cls) \<Rightarrow> Inr no_entry
      | Inl e \<Rightarrow> Inl e)"

section \<open>Writing the rows\<close>

text \<open>
  A child of an element of the parsed page: a text node, which is a \<^verbatim>\<open>str\<close>
  (\<open>NavigableString\<close>), or an element (\<open>Tag\<close>). An element has no method
  \<^verbatim>\<open>split\<close>: the library answers the attribute with the child element of that name,
  \<^verbatim>\<open>None\<close> for the elements of a listing page, and calling it raises
  \<^verbatim>\<open>TypeError\<close>.
\<close>

datatype child = NavigableString string | Tag

text \<open>
  An entry of \<^verbatim>\<open>name_list\<close>: an \<^verbatim>\<open>a\<close> element as \<^verbatim>\<open>find_all('a')\<close> returns it,
  with its children \<^verbatim>\<open>name.contents\<close>, of which there may be none, and its attribute
  \<^verbatim>\<open>name.get('href')\<close>, which is \<^verbatim>\<open>None\<close> when the element has no such attribute.
\<close>

record anchor =
  contents :: "child list"
  href :: "string option"

type_synonym row = "string list"

text \<open>
  The body of the loop of \<^verbatim>\<open>write_data\<close>: the row that line 86 writes. Three
  statements stand outside any \<^verbatim>\<open>try\<close>: line 61 raises \<^verbatim>\<open>IndexError\<close> for an
  anchor without a child, line 62 raises \<^verbatim>\<open>TypeError\<close> when \<^verbatim>\<open>str + None\<close> is
  asked for, and line 66 raises \<^verbatim>\<open>TypeError\<close> when the first child is an element.
\<close>

definition output_record :: "(string \<Rightarrow> exception + wiki_page) \<Rightarrow> anchor \<Rightarrow> exception + row" where
  "output_record page name =
     (case getitem (contents name) 0 of
        Inl e \<Rightarrow> Inl e
      | Inr name_content \<Rightarrow>
          (case href name of
             None \<Rightarrow> Inl TypeError
           | Some h \<Rightarrow>
               (let link = ''https://web.archive.org'' @ h in
                case name_content of
                  Tag \<Rightarrow> Inl TypeError
                | NavigableString display_name \<Rightarrow>
                    (case wiki_name display_name of
                       Inl e \<Rightarrow> Inl e
                     | Inr key \<Rightarrow>
                         (case wiki_summary page key of
                            Inl e \<Rightarrow> Inl e
                          | Inr text \<Rightarrow> Inr [display_name, link, text])))))"

text \<open>
  \<^verbatim>\<open>write_data(file, name_list)\<close>. The csv writer is the list of the rows written so
  far, and writing a row is taken to succeed; the result is the exception that ended the
  loop, if any, and the rows then written.
\<close>

fun write_data :: "(string \<Rightarrow> exception + wiki_page) \<Rightarrow> row list \<Rightarrow> anchor list
    \<Rightarrow> exception option \<times> row list" where
  "write_data page file [] = (None, file)"
| "write_data page file (name # name_list) =
     (case output_record page name of
        Inl e \<Rightarrow> (Some e, file)
      | Inr r \<Rightarrow> write_data page (file @ [r]) name_list)"

text \<open>
  \<^verbatim>\<open>main()\<close>: the header row, then one listing page per upper-case letter. The
  function \<^verbatim>\<open>get_name_list\<close> (an HTTP request and an HTML parse) is a parameter.
\<close>

definition artist_list_url :: "char \<Rightarrow> string" where
  "artist_list_url character =
     ''https://web.archive.org/web/20121007172955/https://www.nga.gov/collection/an''
       @ [character] @ ''1.htm''"

fun main_loop :: "(string \<Rightarrow> exception + anchor list) \<Rightarrow> (string \<Rightarrow> exception + wiki_page)
    \<Rightarrow> row list \<Rightarrow> string \<Rightarrow> exception option \<times> row list" where
  "main_loop get_name_list page file [] = (None, file)"
| "main_loop get_name_list page file (character # rest) =
     (case get_name_list (artist_list_url character) of
        Inl e \<Rightarrow> (Some e, file)
      | Inr name_list \<Rightarrow>
          (case write_data page file name_list of
             (Some e, file') \<Rightarrow> (Some e, file')
           | (None, file') \<Rightarrow> main_loop get_name_list page file' rest))"

definition main :: "(string \<Rightarrow> exception + anchor list) \<Rightarrow> (string \<Rightarrow> exception + wiki_page)
    \<Rightarrow> exception option \<times> row list" where
  "main get_name_list page =
     main_loop get_name_list page [[''Name'', ''Link'', ''Wiki Summary'']] ascii_uppercase"

text \<open>For the examples: a lookup that raises the same exception for every title.\<close>

definition page_raising :: "exception \<Rightarrow> string \<Rightarrow> exception + wiki_page" where
  "page_raising e key = Inl e"

section \<open>Facts about the string functions\<close>

lemma str_split_dropWhile_Nil:
  assumes "dropWhile whitespace s = []"
  shows "str_split s = []"
  using assms by (subst str_split.simps) (simp only: list.case)

lemma str_split_dropWhile_Cons:
  assumes "dropWhile whitespace s = c # cs"
  shows "str_split s = takeWhile (\<lambda>x. \<not> whitespace x) (c # cs)
    # str_split (dropWhile (\<lambda>x. \<not> whitespace x) (c # cs))"
  using assms by (subst str_split.simps) (simp only: list.case)

lemma str_split_all_whitespace:
  assumes "\<forall>c \<in> set s. whitespace c"
  shows "str_split s = []"
proof -
  have "dropWhile whitespace s = []" using assms by simp
  then show ?thesis by (rule str_split_dropWhile_Nil)
qed

lemma str_split_Nil_iff: "str_split s = [] \<longleftrightarrow> (\<forall>c \<in> set s. whitespace c)"
proof
  assume e: "str_split s = []"
  show "\<forall>c \<in> set s. whitespace c"
  proof (cases "dropWhile whitespace s")
    case Nil
    then show ?thesis by (simp add: dropWhile_eq_Nil_conv)
  next
    case (Cons c cs)
    then have "str_split s \<noteq> []" by (subst str_split.simps) simp
    with e show ?thesis by simp
  qed
next
  assume "\<forall>c \<in> set s. whitespace c"
  then show "str_split s = []" by (rule str_split_all_whitespace)
qed

lemma str_split_skip:
  assumes "whitespace w"
  shows "str_split (w # rest) = str_split rest"
proof -
  have d: "dropWhile whitespace (w # rest) = dropWhile whitespace rest"
    using assms by simp
  show ?thesis
    by (subst str_split.simps, subst (2) str_split.simps) (simp only: d)
qed

lemma str_split_token:
  assumes "a \<noteq> []" and "\<forall>c \<in> set a. \<not> whitespace c" and "whitespace w"
  shows "str_split (a @ w # rest) = a # str_split rest"
proof -
  obtain c cs where a: "a = c # cs" using assms(1) by (cases a) auto
  have nw: "\<not> whitespace c" using assms(2) a by simp
  have d: "dropWhile whitespace (a @ w # rest) = c # (cs @ w # rest)"
    using a nw by simp
  have t: "takeWhile (\<lambda>x. \<not> whitespace x) (c # (cs @ w # rest)) = a"
    using takeWhile_append2 [of a "\<lambda>x. \<not> whitespace x" "w # rest"] assms(2,3) a by simp
  have r: "dropWhile (\<lambda>x. \<not> whitespace x) (c # (cs @ w # rest)) = w # rest"
    using dropWhile_append2 [of a "\<lambda>x. \<not> whitespace x" "w # rest"] assms(2,3) a by simp
  have "str_split (a @ w # rest) = a # str_split (w # rest)"
    by (simp only: str_split_dropWhile_Cons [OF d] t r)
  then show ?thesis
    by (simp only: str_split_skip [OF assms(3)])
qed

lemma str_split_single:
  assumes "a \<noteq> []" and "\<forall>c \<in> set a. \<not> whitespace c"
  shows "str_split a = [a]"
proof -
  obtain c cs where a: "a = c # cs" using assms(1) by (cases a) auto
  have nw: "\<not> whitespace c" using assms(2) a by simp
  have d: "dropWhile whitespace a = c # cs" using a nw by simp
  have t: "takeWhile (\<lambda>x. \<not> whitespace x) (c # cs) = a" using assms(2) a by simp
  have r: "dropWhile (\<lambda>x. \<not> whitespace x) (c # cs) = []" using assms(2) a by simp
  have e: "str_split [] = []" by (rule str_split_dropWhile_Nil) simp
  show ?thesis
    by (simp only: str_split_dropWhile_Cons [OF d] t r e)
qed

lemma str_split_tokens:
  "t \<in> set (str_split s) \<Longrightarrow> t \<noteq> [] \<and> (\<forall>c \<in> set t. \<not> whitespace c)"
proof (induction s arbitrary: t rule: str_split.induct)
  case (1 s)
  show ?case
  proof (cases "dropWhile whitespace s")
    case Nil
    then have "str_split s = []" by (rule str_split_dropWhile_Nil)
    with "1.prems" show ?thesis by simp
  next
    case (Cons c cs)
    have nw: "\<not> whitespace c"
      using Cons hd_dropWhile [of whitespace s] by simp
    have s: "str_split s = takeWhile (\<lambda>x. \<not> whitespace x) (c # cs)
        # str_split (dropWhile (\<lambda>x. \<not> whitespace x) (c # cs))"
      using Cons by (rule str_split_dropWhile_Cons)
    from "1.prems" have "t \<in> set (takeWhile (\<lambda>x. \<not> whitespace x) (c # cs)
        # str_split (dropWhile (\<lambda>x. \<not> whitespace x) (c # cs)))"
      by (simp only: s)
    then consider
        "t = takeWhile (\<lambda>x. \<not> whitespace x) (c # cs)"
      | "t \<in> set (str_split (dropWhile (\<lambda>x. \<not> whitespace x) (c # cs)))"
      by (auto simp only: set_simps insert_iff)
    then show ?thesis
    proof cases
      case 1
      have "t \<noteq> []" using 1 nw by simp
      moreover have "\<forall>x \<in> set t. \<not> whitespace x"
        unfolding 1 by (blast dest: set_takeWhileD)
      ultimately show ?thesis by simp
    next
      case 2
      show ?thesis by (rule "1.IH" [OF Cons 2])
    qed
  qed
qed


lemma last_dropWhile:
  assumes "dropWhile P xs \<noteq> []"
  shows "last (dropWhile P xs) = last xs"
proof -
  have "last xs = last (takeWhile P xs @ dropWhile P xs)" by simp
  also have "\<dots> = last (dropWhile P xs)" using assms by (rule last_appendR)
  finally show ?thesis by simp
qed

lemma str_strip_decomp:
  "\<exists>p q. s = p @ str_strip chars s @ q \<and> set p \<subseteq> set chars \<and> set q \<subseteq> set chars"
proof -
  define P where "P = (\<lambda>c. c \<in> set chars)"
  define m where "m = dropWhile P s"
  have s: "s = takeWhile P s @ m" by (simp add: m_def)
  have "m = rev (takeWhile P (rev m) @ dropWhile P (rev m))"
    by (simp only: takeWhile_dropWhile_id rev_rev_ident)
  then have m: "m = rev (dropWhile P (rev m)) @ rev (takeWhile P (rev m))"
    by (simp only: rev_append)
  have k: "str_strip chars s = rev (dropWhile P (rev m))"
    by (simp add: str_strip_def P_def m_def)
  have "s = takeWhile P s @ str_strip chars s @ rev (takeWhile P (rev m))"
    using s m k by simp
  moreover have "set (takeWhile P s) \<subseteq> set chars"
    using set_takeWhileD [of _ P s] by (auto simp: P_def)
  moreover have "set (rev (takeWhile P (rev m))) \<subseteq> set chars"
    using set_takeWhileD [of _ P "rev m"] by (auto simp: P_def)
  ultimately show ?thesis by blast
qed

lemma str_strip_edges:
  assumes "str_strip chars s \<noteq> []"
  shows "hd (str_strip chars s) \<notin> set chars \<and> last (str_strip chars s) \<notin> set chars"
proof -
  define P where "P = (\<lambda>c. c \<in> set chars)"
  define m where "m = dropWhile P s"
  define k where "k = dropWhile P (rev m)"
  have e: "str_strip chars s = rev k"
    by (simp add: str_strip_def P_def m_def k_def)
  have k: "k \<noteq> []" using assms e by simp
  then have m: "m \<noteq> []" by (auto simp: k_def)
  have "\<not> P (hd k)" using k unfolding k_def by (rule hd_dropWhile)
  then have l: "last (rev k) \<notin> set chars" using k by (simp add: last_rev P_def)
  have "last k = last (rev m)" using k unfolding k_def by (rule last_dropWhile)
  also have "\<dots> = hd m" using m by (simp add: last_rev)
  finally have "hd (rev k) = hd m" using k by (simp add: hd_rev)
  moreover have "\<not> P (hd m)" using m unfolding m_def by (rule hd_dropWhile)
  ultimately have "hd (rev k) \<notin> set chars" by (simp add: P_def)
  with l e show ?thesis by simp
qed

lemma str_strip_trailing:
  assumes "s \<noteq> []" and "hd s \<notin> set chars" and "last s \<notin> set chars" and "x \<in> set chars"
  shows "str_strip chars (s @ [x]) = s"
proof -
  obtain c cs where s: "s = c # cs" using assms(1) by (cases s) auto
  have d: "dropWhile (\<lambda>c. c \<in> set chars) (s @ [x]) = s @ [x]" using s assms(2) by simp
  have "rev s \<noteq> []" using assms(1) by simp
  then obtain b bs where r: "rev s = b # bs" by (cases "rev s") auto
  have "b = last s" using r assms(1) by (metis hd_rev list.sel(1))
  then have "dropWhile (\<lambda>c. c \<in> set chars) (b # bs) = b # bs" using assms(3) by simp
  then have "dropWhile (\<lambda>c. c \<in> set chars) (rev s) = rev s" by (simp only: r)
  then have "dropWhile (\<lambda>c. c \<in> set chars) (rev (s @ [x])) = rev s" using assms(4) by simp
  then show ?thesis by (simp only: str_strip_def d rev_rev_ident)
qed

lemma wiki_name_no_token:
  assumes "str_split name_content = []"
  shows "wiki_name name_content = Inl IndexError"
  using assms by (simp add: wiki_name_def getitem_def)

lemma wiki_name_one_token:
  assumes "str_split name_content = [t]"
  shows "wiki_name name_content = Inr (str_strip punctuation t)"
  using assms by (simp add: wiki_name_def getitem_def)

lemma wiki_name_two_or_more:
  assumes "2 \<le> length (str_split name_content)"
  shows "wiki_name name_content =
    Inr (str_split name_content ! 1 @ '' '' @ str_strip punctuation (str_split name_content ! 0))"
proof -
  obtain a b rest where "str_split name_content = a # b # rest"
    using assms by (auto simp: numeral_2_eq_2 Suc_le_length_iff)
  then show ?thesis by (simp add: wiki_name_def getitem_def)
qed

lemma punctuation_not_whitespace: "c \<in> set punctuation \<Longrightarrow> \<not> whitespace c"
  by (auto simp: punctuation_def whitespace_def)

lemma output_record_Inr_iff:
  "output_record page name = Inr r \<longleftrightarrow>
     (\<exists>display_name rest h key text.
        contents name = NavigableString display_name # rest \<and> href name = Some h
        \<and> wiki_name display_name = Inr key \<and> wiki_summary page key = Inr text
        \<and> r = [display_name, ''https://web.archive.org'' @ h, text])"
proof (cases "contents name")
  case Nil
  then show ?thesis by (simp add: output_record_def getitem_def)
next
  case (Cons first_child rest)
  then show ?thesis
    by (cases first_child; cases "href name")
      (auto simp: output_record_def getitem_def split: sum.splits)
qed

lemma output_record_raises:
  "(contents name = [] \<longrightarrow> output_record page name = Inl IndexError)
   \<and> (contents name \<noteq> [] \<and> href name = None \<longrightarrow> output_record page name = Inl TypeError)
   \<and> (contents name = Tag # rest \<longrightarrow> output_record page name = Inl TypeError)"
  by (cases "contents name"; cases "href name")
    (auto simp: output_record_def getitem_def)

lemma write_data_None_iff:
  "write_data page written name_list = (None, written') \<longleftrightarrow>
     (\<exists>rows. written' = written @ rows \<and> map Inr rows = map (output_record page) name_list)"
proof (induction name_list arbitrary: written)
  case Nil
  show ?case by auto
next
  case (Cons name name_list)
  show ?case
  proof (cases "output_record page name")
    case (Inl e)
    then show ?thesis by (auto simp: map_eq_Cons_conv)
  next
    case (Inr r)
    have "write_data page written (name # name_list) = (None, written')
        \<longleftrightarrow> (\<exists>rows. written' = (written @ [r]) @ rows
              \<and> map Inr rows = map (output_record page) name_list)"
      using Inr Cons.IH [of "written @ [r]"] by simp
    also have "\<dots> \<longleftrightarrow> (\<exists>rows. written' = written @ rows
              \<and> map Inr rows = map (output_record page) (name # name_list))"
      using Inr by (auto simp: map_eq_Cons_conv)
    finally show ?thesis .
  qed
qed

lemma write_data_Some:
  "write_data page written name_list = (Some e, written') \<Longrightarrow>
     \<exists>before name rest rows. name_list = before @ name # rest
        \<and> output_record page name = Inl e
        \<and> written' = written @ rows \<and> map Inr rows = map (output_record page) before"
proof (induction name_list arbitrary: written)
  case Nil
  then show ?case by simp
next
  case (Cons name name_list)
  show ?case
  proof (cases "output_record page name")
    case (Inl e')
    with Cons.prems have "e' = e" and "written' = written" by simp_all
    with Inl have "name # name_list = [] @ name # name_list \<and> output_record page name = Inl e
        \<and> written' = written @ [] \<and> map Inr [] = map (output_record page) []"
      by simp
    then show ?thesis by blast
  next
    case (Inr r)
    with Cons.prems have "write_data page (written @ [r]) name_list = (Some e, written')" by simp
    from Cons.IH [OF this] obtain before n rest rows where
      h: "name_list = before @ n # rest" "output_record page n = Inl e"
         "written' = (written @ [r]) @ rows" "map Inr rows = map (output_record page) before"
      by blast
    have "name # name_list = (name # before) @ n # rest \<and> output_record page n = Inl e
        \<and> written' = written @ (r # rows)
        \<and> map Inr (r # rows) = map (output_record page) (name # before)"
      using h Inr by simp
    then show ?thesis by blast
  qed
qed

lemma rows_of_entries:
  assumes "map Inr rows = map (output_record page) names" and "r \<in> set rows"
  shows "\<exists>name \<in> set names. output_record page name = Inr r"
proof -
  have "set (map Inr rows) = set (map (output_record page) names)"
    using assms(1) by (rule arg_cong)
  moreover have "Inr r \<in> set (map Inr rows)" using assms(2) by simp
  ultimately have "Inr r \<in> set (map (output_record page) names)" by blast
  then show ?thesis by auto
qed

lemma write_data_sink:
  assumes "write_data page written name_list = (res, written')"
  shows "\<exists>rows. written' = written @ rows
    \<and> (\<forall>r \<in> set rows. \<exists>name \<in> set name_list. output_record page name = Inr r)"
proof (cases res)
  case None
  with assms obtain rows where
    "written' = written @ rows" "map Inr rows = map (output_record page) name_list"
    using write_data_None_iff by blast
  then show ?thesis using rows_of_entries by blast
next
  case (Some e)
  with assms obtain before name rest rows where
    h: "name_list = before @ name # rest" "written' = written @ rows"
       "map Inr rows = map (output_record page) before"
    using write_data_Some by blast
  have "\<forall>r \<in> set rows. \<exists>name \<in> set before. output_record page name = Inr r"
    using rows_of_entries [OF h(3)] by blast
  then have "\<forall>r \<in> set rows. \<exists>name \<in> set name_list. output_record page name = Inr r"
    using h(1) by auto
  with h(2) show ?thesis by blast
qed

lemma main_loop_sink:
  "main_loop get_name_list page written letters = (res, written') \<Longrightarrow>
     \<exists>rows. written' = written @ rows
       \<and> (\<forall>r \<in> set rows. \<exists>character \<in> set letters. \<exists>name_list.
             get_name_list (artist_list_url character) = Inr name_list
             \<and> (\<exists>name \<in> set name_list. output_record page name = Inr r))"
proof (induction letters arbitrary: written)
  case Nil
  then show ?case by simp
next
  case (Cons character rest)
  show ?case
  proof (cases "get_name_list (artist_list_url character)")
    case (Inl e)
    with Cons.prems have "written' = written @ []" by simp
    then show ?thesis by (metis empty_iff empty_set)
  next
    case (Inr name_list)
    obtain w mid where w: "write_data page written name_list = (w, mid)"
      by (cases "write_data page written name_list")
    from write_data_sink [OF w] obtain rows1 where
      r1: "mid = written @ rows1"
          "\<forall>r \<in> set rows1. \<exists>name \<in> set name_list. output_record page name = Inr r"
      by blast
    have here: "\<forall>r \<in> set rows1. \<exists>c \<in> set (character # rest). \<exists>name_list.
             get_name_list (artist_list_url c) = Inr name_list
             \<and> (\<exists>name \<in> set name_list. output_record page name = Inr r)"
      using r1(2) Inr by auto
    show ?thesis
    proof (cases w)
      case (Some e)
      with Cons.prems Inr w have "written' = mid" by simp
      with r1(1) here show ?thesis by blast
    next
      case None
      with Cons.prems Inr w have "main_loop get_name_list page mid rest = (res, written')"
        by simp
      from Cons.IH [OF this] obtain rows2 where
        r2: "written' = mid @ rows2"
            "\<forall>r \<in> set rows2. \<exists>c \<in> set rest. \<exists>name_list.
               get_name_list (artist_list_url c) = Inr name_list
               \<and> (\<exists>name \<in> set name_list. output_record page name = Inr r)"
        by blast
      have "written' = written @ (rows1 @ rows2)" using r1(1) r2(1) by simp
      moreover have "\<forall>r \<in> set (rows1 @ rows2). \<exists>c \<in> set (character # rest). \<exists>name_list.
             get_name_list (artist_list_url c) = Inr name_list
             \<and> (\<exists>name \<in> set name_list. output_record page name = Inr r)"
        using here r2(2) by auto
      ultimately show ?thesis by blast
    qed
  qed
qed


lemma wiki_name_succeeds:
  assumes "\<exists>c \<in> set name_content. \<not> whitespace c"
  shows "\<exists>key. wiki_name name_content = Inr key"
proof (cases "str_split name_content")
  case Nil
  with assms show ?thesis using str_split_Nil_iff [of name_content] by simp
next
  case (Cons a rest)
  then show ?thesis by (cases rest) (simp_all add: wiki_name_def getitem_def)
qed

lemma wiki_summary_succeeds:
  assumes "\<forall>k e. page k = Inl e \<longrightarrow> (\<exists>cls. e = WikipediaException cls)"
  shows "\<exists>text. wiki_summary page key = Inr text"
proof (cases "page key")
  case (Inl e)
  with assms obtain cls where "e = WikipediaException cls" by blast
  with Inl show ?thesis by (simp add: wiki_summary_def)
next
  case (Inr wp)
  then show ?thesis by (simp add: wiki_summary_def)
qed

lemma output_record_succeeds:
  assumes "contents name = NavigableString display_name # rest" and "href name = Some h"
    and "\<exists>c \<in> set display_name. \<not> whitespace c"
    and "\<forall>k e. page k = Inl e \<longrightarrow> (\<exists>cls. e = WikipediaException cls)"
  shows "\<exists>r. output_record page name = Inr r"
proof -
  obtain key where k: "wiki_name display_name = Inr key"
    using wiki_name_succeeds [OF assms(3)] by blast
  obtain sm where "wiki_summary page key = Inr sm"
    using wiki_summary_succeeds [OF assms(4)] by blast
  with k assms(1,2) show ?thesis by (simp add: output_record_def getitem_def)
qed

lemma write_data_succeeds:
  assumes "\<forall>name \<in> set name_list. \<exists>r. output_record page name = Inr r"
  shows "\<exists>rows. write_data page written name_list = (None, written @ rows)
    \<and> map Inr rows = map (output_record page) name_list"
  using assms
proof (induction name_list arbitrary: written)
  case Nil
  show ?case by simp
next
  case (Cons name name_list)
  then obtain r where r: "output_record page name = Inr r" by auto
  from Cons obtain rows where
    "write_data page (written @ [r]) name_list = (None, (written @ [r]) @ rows)"
    "map Inr rows = map (output_record page) name_list"
    by fastforce
  then have "write_data page written (name # name_list) = (None, written @ (r # rows))
      \<and> map Inr (r # rows) = map (output_record page) (name # name_list)"
    using r by simp
  then show ?case by blast
qed

section \<open>Accepting or rejecting the page found\<close>

text \<open>
  C1. When \<^verbatim>\<open>wikipedia.page\<close> returns a page for the search key, the summary written is the
  summary of the page if the title of the page equals the key once both are lower-cased, or
  if \<^verbatim>\<open>check_if_artist\<close> accepts the page; it is the fixed text
  \<open>No Wikipedia Entry Available for this artist\<close> when neither holds. Whenever the summary
  of the page is not that fixed text itself, the summary of the page is written if and only
  if one of the two conditions holds.
\<close>

theorem wiki_summary_of_page:
  assumes "page key = Inr wp"
  shows "wiki_summary page key =
      Inr (if str_lower (title wp) = str_lower key \<or> check_if_artist wp
           then summary wp else ''No Wikipedia Entry Available for this artist'')
    \<and> (summary wp \<noteq> ''No Wikipedia Entry Available for this artist'' \<longrightarrow>
         (wiki_summary page key = Inr (summary wp)
            \<longleftrightarrow> str_lower (title wp) = str_lower key \<or> check_if_artist wp))"
  using assms by (simp add: wiki_summary_def no_entry_def)

theorem wiki_summary_of_page_witness:
  "wiki_summary
     (\<lambda>k. Inr \<lparr>title = ''Pablo Picasso'', categories = [''Spanish painters''],
               summary = ''Pablo Picasso was...''\<rparr>) ''pablo picasso''
     = Inr ''Pablo Picasso was...''
   \<and> wiki_summary
     (\<lambda>k. Inr \<lparr>title = ''Picasso (film)'', categories = [''Spanish painters''],
               summary = ''Picasso is a film''\<rparr>) ''pablo picasso''
     = Inr ''No Wikipedia Entry Available for this artist''"
proof -
  let ?p = "\<lparr>title = ''Pablo Picasso'', categories = [''Spanish painters''],
             summary = ''Pablo Picasso was...''\<rparr>"
  let ?q = "\<lparr>title = ''Picasso (film)'', categories = [''Spanish painters''],
             summary = ''Picasso is a film''\<rparr>"
  have a: "str_lower (title ?p) = str_lower ''pablo picasso''" by code_simp
  have b: "str_lower (title ?q) \<noteq> str_lower ''pablo picasso''" by code_simp
  have c: "\<not> check_if_artist ?q" by code_simp
  have "wiki_summary (\<lambda>k. Inr ?p) ''pablo picasso'' = Inr ''Pablo Picasso was...''"
    using wiki_summary_of_page [of "\<lambda>k. Inr ?p" "''pablo picasso''" ?p] a by simp
  moreover have "wiki_summary (\<lambda>k. Inr ?q) ''pablo picasso''
      = Inr ''No Wikipedia Entry Available for this artist''"
    using wiki_summary_of_page [of "\<lambda>k. Inr ?q" "''pablo picasso''" ?q] b c by simp
  ultimately show ?thesis by (rule conjI)
qed

text \<open>
  C2, as stated, does not hold of every failure of the lookup. The handler in
  \<^verbatim>\<open>write_data\<close> names \<^verbatim>\<open>wikipedia.WikipediaException\<close>, so an exception of another
  class, such as a connection error raised by the HTTP layer under the library, is not
  caught: it leaves \<^verbatim>\<open>write_data\<close> and no summary is produced.
\<close>

theorem wiki_summary_other_exception:
  "wiki_summary (page_raising (OtherException ''ConnectionError'')) ''Pablo Picasso''
     = Inl (OtherException ''ConnectionError'')
   \<and> wiki_summary (page_raising (OtherException ''ConnectionError'')) ''Pablo Picasso''
     \<noteq> Inr ''No Wikipedia Entry Available for this artist''"
  by (simp add: wiki_summary_def page_raising_def)

text \<open>
  C2, amended. When the lookup raises \<^verbatim>\<open>wikipedia.WikipediaException\<close> or an exception
  of one of its subclasses, whichever it is, the summary is exactly the text
  \<open>No Wikipedia Entry Available for this artist\<close> and nothing is raised. When the lookup
  raises an exception of any other class, that exception propagates to the caller.
\<close>

theorem wiki_summary_of_exception:
  assumes "page key = Inl e"
  shows "((\<exists>cls. e = WikipediaException cls) \<longrightarrow>
           wiki_summary page key = Inr ''No Wikipedia Entry Available for this artist'')
       \<and> ((\<forall>cls. e \<noteq> WikipediaException cls) \<longrightarrow> wiki_summary page key = Inl e)"
  using assms by (cases e) (simp_all add: wiki_summary_def no_entry_def)

theorem wiki_summary_of_exception_witness:
  "wiki_summary (\<lambda>k. Inl (WikipediaException ''PageError'')) ''John Smith''
     = Inr ''No Wikipedia Entry Available for this artist''
   \<and> wiki_summary (\<lambda>k. Inl (WikipediaException ''DisambiguationError'')) ''John Smith''
     = Inr ''No Wikipedia Entry Available for this artist''
   \<and> wiki_summary (\<lambda>k. Inl (WikipediaException ''HTTPTimeoutError'')) ''John Smith''
     = Inr ''No Wikipedia Entry Available for this artist''
   \<and> wiki_summary (\<lambda>k. Inl IndexError) ''John Smith'' = Inl IndexError"
  using
    wiki_summary_of_exception [of "\<lambda>k. Inl (WikipediaException ''PageError'')"
      "''John Smith''" "WikipediaException ''PageError''"]
    wiki_summary_of_exception [of "\<lambda>k. Inl (WikipediaException ''DisambiguationError'')"
      "''John Smith''" "WikipediaException ''DisambiguationError''"]
    wiki_summary_of_exception [of "\<lambda>k. Inl (WikipediaException ''HTTPTimeoutError'')"
      "''John Smith''" "WikipediaException ''HTTPTimeoutError''"]
    wiki_summary_of_exception [of "\<lambda>k. Inl IndexError" "''John Smith''" IndexError]
  by simp

section \<open>Deriving the search key\<close>

text \<open>
  C3. When the display name splits at white space into a first token \<open>last_name\<close>, a
  second token \<open>first_name\<close> and possibly more, the search key is \<open>first_name\<close>, a
  space, and \<open>last_name\<close> with the punctuation characters at its two ends removed. In
  particular, for a last name \<open>l\<close> and a first name \<open>f\<close>, both non-empty and free of
  white space, \<open>l\<close> neither beginning nor ending with a punctuation character, the
  display name \<open>l, f\<close> gives the key \<open>f l\<close>.
\<close>

theorem wiki_name_last_first:
  "(str_split name_content = last_name # first_name # rest \<longrightarrow>
      wiki_name name_content = Inr (first_name @ '' '' @ str_strip punctuation last_name))
   \<and> (l \<noteq> [] \<and> f \<noteq> [] \<and> (\<forall>c \<in> set (l @ f). \<not> whitespace c)
        \<and> hd l \<notin> set punctuation \<and> last l \<notin> set punctuation \<longrightarrow>
      wiki_name (l @ '', '' @ f) = Inr (f @ '' '' @ l))"
proof (intro conjI impI)
  assume "str_split name_content = last_name # first_name # rest"
  then show "wiki_name name_content = Inr (first_name @ '' '' @ str_strip punctuation last_name)"
    using wiki_name_two_or_more [of name_content] by simp
next
  assume h: "l \<noteq> [] \<and> f \<noteq> [] \<and> (\<forall>c \<in> set (l @ f). \<not> whitespace c)
        \<and> hd l \<notin> set punctuation \<and> last l \<notin> set punctuation"
  have comma: "CHR '','' \<in> set punctuation" by (simp add: punctuation_def)
  have space: "whitespace CHR '' ''" by (simp add: whitespace_def)
  have "\<forall>c \<in> set (l @ '',''). \<not> whitespace c"
    using h comma punctuation_not_whitespace by auto
  then have "str_split ((l @ '','') @ CHR '' '' # f) = (l @ '','') # str_split f"
    using space by (intro str_split_token) simp_all
  moreover have "str_split f = [f]" using h by (intro str_split_single) simp_all
  ultimately have s: "str_split (l @ '', '' @ f) = [l @ '','', f]" by simp
  have "str_strip punctuation (l @ '','') = l"
    using h comma by (intro str_strip_trailing) simp_all
  then show "wiki_name (l @ '', '' @ f) = Inr (f @ '' '' @ l)"
    using wiki_name_two_or_more [of "l @ '', '' @ f"] s by simp
qed

theorem wiki_name_last_first_witness:
  "str_split ''Picasso, Pablo'' = [''Picasso,'', ''Pablo'']
   \<and> wiki_name ''Picasso, Pablo'' = Inr ''Pablo Picasso''
   \<and> wiki_name (''Smith'' @ '', '' @ ''John'') = Inr (''John'' @ '' '' @ ''Smith'')"
proof -
  have s: "str_split ''Picasso, Pablo'' = [''Picasso,'', ''Pablo'']" by code_simp
  have t: "str_strip punctuation ''Picasso,'' = ''Picasso''" by code_simp
  have "wiki_name ''Picasso, Pablo'' = Inr ''Pablo Picasso''"
    using wiki_name_last_first [of "''Picasso, Pablo''" "''Picasso,''" "''Pablo''" "[]"] s t
    by simp
  moreover have "wiki_name (''Smith'' @ '', '' @ ''John'') = Inr (''John'' @ '' '' @ ''Smith'')"
    using wiki_name_last_first [of _ _ _ _ "''Smith''" "''John''"]
    by (simp add: whitespace_def punctuation_def)
  ultimately show ?thesis using s by simp
qed

text \<open>
  C4. When the display name splits into exactly one token, the search key is that token
  with the punctuation stripped from its two ends and nothing else changed: the token is the
  key between a prefix and a suffix made of punctuation characters only, and the key, when
  it is not empty, neither begins nor ends with a punctuation character.
\<close>

theorem wiki_name_single_token:
  assumes "str_split name_content = [t]"
  shows "wiki_name name_content = Inr (str_strip punctuation t)
    \<and> (\<exists>p q. t = p @ str_strip punctuation t @ q
          \<and> set p \<subseteq> set punctuation \<and> set q \<subseteq> set punctuation)
    \<and> (str_strip punctuation t \<noteq> [] \<longrightarrow>
          hd (str_strip punctuation t) \<notin> set punctuation
          \<and> last (str_strip punctuation t) \<notin> set punctuation)"
  using wiki_name_one_token [OF assms] str_strip_decomp [of t punctuation]
    str_strip_edges [of punctuation t]
  by blast

theorem wiki_name_single_token_witness:
  "str_split '' (Michelangelo), '' = [''(Michelangelo),'']
   \<and> wiki_name '' (Michelangelo), '' = Inr ''Michelangelo''"
proof -
  have s: "str_split '' (Michelangelo), '' = [''(Michelangelo),'']" by code_simp
  have t: "str_strip punctuation ''(Michelangelo),'' = ''Michelangelo''" by code_simp
  show ?thesis
    using wiki_name_single_token [OF s] s t by simp
qed

text \<open>
  C5, as stated, fails on a display name made of punctuation characters only: \<open>!!!\<close>
  is one token, the handler strips it to nothing, and the empty string is returned as the
  search key. Nothing is raised.
\<close>

theorem wiki_name_all_punctuation:
  "wiki_name ''!!!'' = Inr '''' \<and> wiki_name ''...'' \<noteq> Inl IndexError"
  by code_simp

text \<open>
  C5, amended. Computing the search key raises \<^verbatim>\<open>IndexError\<close> exactly when the display
  name is empty or consists of white space only, that is when it has no token, and it raises
  no other exception. A display name that is not empty and consists of punctuation
  characters only gives the empty string as its search key.
\<close>

theorem wiki_name_error_iff:
  "(wiki_name name_content = Inl IndexError \<longleftrightarrow> (\<forall>c \<in> set name_content. whitespace c))
   \<and> (\<forall>e. wiki_name name_content = Inl e \<longrightarrow> e = IndexError)
   \<and> (name_content \<noteq> [] \<and> set name_content \<subseteq> set punctuation \<longrightarrow>
        wiki_name name_content = Inr '''')"
proof (intro conjI allI impI)
  show "wiki_name name_content = Inl IndexError \<longleftrightarrow> (\<forall>c \<in> set name_content. whitespace c)"
  proof (cases "str_split name_content")
    case Nil
    then show ?thesis using wiki_name_no_token [OF Nil] str_split_Nil_iff by simp
  next
    case (Cons a rest)
    then have "\<not> (\<forall>c \<in> set name_content. whitespace c)"
      using str_split_Nil_iff [of name_content] by simp
    moreover have "wiki_name name_content \<noteq> Inl IndexError"
      using Cons by (cases rest) (simp_all add: wiki_name_def getitem_def)
    ultimately show ?thesis by simp
  qed
next
  fix e
  assume "wiki_name name_content = Inl e"
  then show "e = IndexError"
    by (cases "str_split name_content"; cases "tl (str_split name_content)")
      (simp_all add: wiki_name_def getitem_def)
next
  assume h: "name_content \<noteq> [] \<and> set name_content \<subseteq> set punctuation"
  then have "\<forall>c \<in> set name_content. \<not> whitespace c"
    using punctuation_not_whitespace by blast
  then have "str_split name_content = [name_content]"
    using h by (intro str_split_single) simp_all
  moreover have "str_strip punctuation name_content = []"
  proof -
    have "dropWhile (\<lambda>c. c \<in> set punctuation) name_content = []"
      using h by auto
    then show ?thesis by (simp only: str_strip_def rev.simps dropWhile.simps)
  qed
  ultimately show "wiki_name name_content = Inr ''''"
    using wiki_name_one_token [of name_content name_content] by simp
qed

theorem wiki_name_error_iff_witness:
  "wiki_name '''' = Inl IndexError \<and> wiki_name ''   '' = Inl IndexError
   \<and> wiki_name ''?!'' = Inr ''''"
  using wiki_name_error_iff [of "''''"] wiki_name_error_iff [of "''   ''"]
    wiki_name_error_iff [of "''?!''"]
  by (simp add: whitespace_def punctuation_def)

text \<open>
  C9. When the display name splits into three tokens or more, the search key is built from
  the first two only: token 1, a space, and token 0 stripped. Two display names with the same
  first two tokens have the same key, whatever follows. For example
  \<open>Gogh, Vincent van\<close> gives \<open>Vincent Gogh\<close>.
\<close>

theorem wiki_name_ignores_later_tokens:
  "(str_split name_content = last_name # first_name # third # rest \<longrightarrow>
      wiki_name name_content = Inr (first_name @ '' '' @ str_strip punctuation last_name))
   \<and> (2 \<le> length (str_split n) \<and> take 2 (str_split n) = take 2 (str_split n') \<longrightarrow>
        wiki_name n = wiki_name n')
   \<and> wiki_name ''Gogh, Vincent van'' = Inr ''Vincent Gogh''"
proof (intro conjI impI)
  assume "str_split name_content = last_name # first_name # third # rest"
  then show "wiki_name name_content = Inr (first_name @ '' '' @ str_strip punctuation last_name)"
    using wiki_name_two_or_more [of name_content] by simp
next
  assume h: "2 \<le> length (str_split n) \<and> take 2 (str_split n) = take 2 (str_split n')"
  then obtain a b r where n: "str_split n = a # b # r"
    by (auto simp: numeral_2_eq_2 Suc_le_length_iff)
  then have "take 2 (str_split n') = [a, b]"
    using h by (simp add: numeral_2_eq_2)
  then have "\<exists>r'. str_split n' = a # b # r'"
  proof (cases "str_split n'")
    case Nil
    with \<open>take 2 (str_split n') = [a, b]\<close> show ?thesis by simp
  next
    case (Cons x xs)
    with \<open>take 2 (str_split n') = [a, b]\<close> show ?thesis
      by (cases xs) (simp_all add: numeral_2_eq_2)
  qed
  then obtain r' where n': "str_split n' = a # b # r'" by blast
  show "wiki_name n = wiki_name n'"
    using wiki_name_two_or_more [of n] wiki_name_two_or_more [of n'] n n' by simp
next
  show "wiki_name ''Gogh, Vincent van'' = Inr ''Vincent Gogh''" by code_simp
qed

theorem wiki_name_ignores_later_tokens_witness:
  "str_split ''Gogh, Vincent van'' = [''Gogh,'', ''Vincent'', ''van'']
   \<and> wiki_name ''Gogh, Vincent van'' = Inr (''Vincent'' @ '' '' @ str_strip punctuation ''Gogh,'')
   \<and> wiki_name ''Gogh, Vincent van'' = wiki_name ''Gogh, Vincent Willem van''"
proof -
  have s: "str_split ''Gogh, Vincent van'' = [''Gogh,'', ''Vincent'', ''van'']" by code_simp
  have t: "str_split ''Gogh, Vincent Willem van'' = [''Gogh,'', ''Vincent'', ''Willem'', ''van'']"
    by code_simp
  have "wiki_name ''Gogh, Vincent van''
      = Inr (''Vincent'' @ '' '' @ str_strip punctuation ''Gogh,'')"
    using wiki_name_ignores_later_tokens
      [of "''Gogh, Vincent van''" "''Gogh,''" "''Vincent''" "''van''" "[]"] s
    by blast
  moreover have "wiki_name ''Gogh, Vincent van'' = wiki_name ''Gogh, Vincent Willem van''"
    using wiki_name_ignores_later_tokens
      [of _ _ _ _ _ "''Gogh, Vincent van''" "''Gogh, Vincent Willem van''"] s t
    by simp
  ultimately show ?thesis using s by blast
qed

section \<open>Classifying the categories of a page\<close>

lemma words_have_keyword_iff:
  "words_have_keyword ws \<longleftrightarrow> (\<exists>w \<in> set ws. str_lower w \<in> artist_keywords)"
  by (induction ws) auto

lemma categories_have_keyword_iff:
  "categories_have_keyword cs \<longleftrightarrow>
     (\<exists>category \<in> set cs. \<exists>w \<in> set (str_split category). str_lower w \<in> artist_keywords)"
  by (induction cs) (auto simp: words_have_keyword_iff)

text \<open>
  C6. \<^verbatim>\<open>check_if_artist\<close> returns true if and only if some token, delimited by white
  space, of some category of the page is, once lower-cased, one of \<open>art\<close>,
  \<open>artist\<close>, \<open>sculptor\<close> and \<open>painter\<close>. It returns false for a page that has no
  category.
\<close>

theorem check_if_artist_iff:
  "(check_if_artist wp \<longleftrightarrow>
      (\<exists>category \<in> set (categories wp). \<exists>word \<in> set (str_split category).
         str_lower word \<in> {''art'', ''artist'', ''sculptor'', ''painter''}))
   \<and> \<not> check_if_artist (wp\<lparr>categories := []\<rparr>)"
proof (rule conjI)
  have "check_if_artist wp \<longleftrightarrow> categories_have_keyword (categories wp)"
    by (simp add: check_if_artist_def)
  also have "\<dots> \<longleftrightarrow>
      (\<exists>category \<in> set (categories wp). \<exists>word \<in> set (str_split category).
         str_lower word \<in> artist_keywords)"
    by (rule categories_have_keyword_iff)
  finally show "check_if_artist wp \<longleftrightarrow>
      (\<exists>category \<in> set (categories wp). \<exists>word \<in> set (str_split category).
         str_lower word \<in> {''art'', ''artist'', ''sculptor'', ''painter''})"
    by (simp only: artist_keywords_def)
next
  have "categories (wp\<lparr>categories := []\<rparr>) = []" by simp
  then show "\<not> check_if_artist (wp\<lparr>categories := []\<rparr>)"
    by (simp add: check_if_artist_def)
qed

theorem check_if_artist_iff_witness:
  "check_if_artist \<lparr>title = ''Auguste Rodin'',
      categories = [''1840 births'', ''French Sculptor of the 19th century''],
      summary = ''Rodin was...''\<rparr>
   \<and> \<not> check_if_artist \<lparr>title = ''Rodin (crater)'', categories = [], summary = ''A crater''\<rparr>"
proof -
  let ?wp = "\<lparr>title = ''Auguste Rodin'',
      categories = [''1840 births'', ''French Sculptor of the 19th century''],
      summary = ''Rodin was...''\<rparr>"
  have s: "str_split ''French Sculptor of the 19th century''
      = [''French'', ''Sculptor'', ''of'', ''the'', ''19th'', ''century'']" by code_simp
  have l: "str_lower ''Sculptor'' = ''sculptor''" by code_simp
  have "\<exists>category \<in> set (categories ?wp). \<exists>word \<in> set (str_split category).
         str_lower word \<in> {''art'', ''artist'', ''sculptor'', ''painter''}"
    using s l by simp
  then have "check_if_artist ?wp"
    using check_if_artist_iff [of ?wp] by blast
  moreover have "\<not> check_if_artist
      \<lparr>title = ''Rodin (crater)'', categories = [], summary = ''A crater''\<rparr>"
    using check_if_artist_iff
      [of "\<lparr>title = ''Rodin (crater)'', categories = [], summary = ''A crater''\<rparr>"]
    by simp
  ultimately show ?thesis by (rule conjI)
qed

text \<open>
  C10. A token has to equal a keyword once lower-cased, so plurals do not count: a page
  whose only category is \<open>Spanish painters\<close>, or \<open>American artists\<close>, is rejected,
  whereas \<open>Spanish painter\<close> is accepted. Neither \<open>painters\<close> nor \<open>artists\<close> is
  a keyword.
\<close>

theorem check_if_artist_plural:
  "\<not> check_if_artist \<lparr>title = t, categories = [''Spanish painters''], summary = s\<rparr>
   \<and> \<not> check_if_artist \<lparr>title = t, categories = [''American artists''], summary = s\<rparr>
   \<and> check_if_artist \<lparr>title = t, categories = [''Spanish painter''], summary = s\<rparr>
   \<and> ''painters'' \<notin> artist_keywords \<and> ''artists'' \<notin> artist_keywords"
proof -
  have "\<not> categories_have_keyword [''Spanish painters'']" by code_simp
  moreover have "\<not> categories_have_keyword [''American artists'']" by code_simp
  moreover have "categories_have_keyword [''Spanish painter'']" by code_simp
  ultimately show ?thesis by (simp add: check_if_artist_def artist_keywords_def)
qed

theorem check_if_artist_plural_witness:
  "\<not> check_if_artist \<lparr>title = ''Pablo Picasso'', categories = [''Spanish painters''],
       summary = ''Pablo Picasso was...''\<rparr>
   \<and> \<not> check_if_artist \<lparr>title = ''Pablo Picasso'', categories = [''American artists''],
       summary = ''Pablo Picasso was...''\<rparr>"
  using check_if_artist_plural [of "''Pablo Picasso''" "''Pablo Picasso was...''"]
  by blast

section \<open>The rows written\<close>

text \<open>
  C7, as stated, fails when an entry raises. For a display name without a token (here a
  single space) \<^verbatim>\<open>IndexError\<close> is raised inside the handler at line 73 and ends
  \<^verbatim>\<open>write_data\<close>: of three entries the first has its row written, the second and the
  third have none. Likewise an anchor without an \<^verbatim>\<open>href\<close> attribute ends it with
  \<^verbatim>\<open>TypeError\<close> at line 62, before any row is written.
\<close>

theorem write_data_stops_at_exception:
  "write_data (page_raising (WikipediaException ''PageError'')) []
     [\<lparr>contents = [NavigableString ''Smith, John''], href = Some ''/b''\<rparr>,
      \<lparr>contents = [NavigableString '' ''], href = Some ''/c''\<rparr>,
      \<lparr>contents = [NavigableString ''Picasso, Pablo''], href = Some ''/a''\<rparr>]
   = (Some IndexError,
      [[''Smith, John'', ''https://web.archive.org/b'',
        ''No Wikipedia Entry Available for this artist'']])
   \<and> write_data (page_raising (WikipediaException ''PageError'')) []
     [\<lparr>contents = [NavigableString ''Smith, John''], href = None\<rparr>]
   = (Some TypeError, [])"
  by code_simp

text \<open>
  C7, amended. If every entry is an anchor that has an \<^verbatim>\<open>href\<close> attribute and whose
  first child is a text node, the display name, with a character that is not white space,
  and if the lookup raises nothing but \<^verbatim>\<open>wikipedia.WikipediaException\<close> or a subclass
  of it, then \<^verbatim>\<open>write_data\<close> ends normally and has appended exactly one row per entry,
  the i-th row being the record of the i-th entry. More generally it ends normally exactly
  when every entry yields a record, and has then appended these records in the order of the
  input. When it ends with an exception, that exception is the one of the first entry that
  raised, and the rows appended are the records of the entries before it, in order.
\<close>

theorem write_data_one_row_per_entry:
  "((\<forall>name \<in> set name_list. \<exists>display_name rest h.
          contents name = NavigableString display_name # rest \<and> href name = Some h
          \<and> (\<exists>c \<in> set display_name. \<not> whitespace c))
      \<and> (\<forall>k x. page k = Inl x \<longrightarrow> (\<exists>cls. x = WikipediaException cls)) \<longrightarrow>
      (\<exists>rows. write_data page written name_list = (None, written @ rows)
         \<and> length rows = length name_list
         \<and> map Inr rows = map (output_record page) name_list))
   \<and> (write_data page written name_list = (None, written') \<longleftrightarrow>
      (\<exists>rows. written' = written @ rows
         \<and> map Inr rows = map (output_record page) name_list))
   \<and> (write_data page written name_list = (None, written') \<longrightarrow>
        length written' = length written + length name_list)
   \<and> (write_data page written name_list = (Some e, written') \<longrightarrow>
        (\<exists>before name rest rows. name_list = before @ name # rest
           \<and> output_record page name = Inl e
           \<and> written' = written @ rows
           \<and> map Inr rows = map (output_record page) before))"
proof (intro conjI impI)
  assume h: "(\<forall>name \<in> set name_list. \<exists>display_name rest h.
          contents name = NavigableString display_name # rest \<and> href name = Some h
          \<and> (\<exists>c \<in> set display_name. \<not> whitespace c))
      \<and> (\<forall>k x. page k = Inl x \<longrightarrow> (\<exists>cls. x = WikipediaException cls))"
  then have "\<forall>name \<in> set name_list. \<exists>r. output_record page name = Inr r"
    using output_record_succeeds by blast
  from write_data_succeeds [OF this] obtain rows where
    r: "write_data page written name_list = (None, written @ rows)"
       "map Inr rows = map (output_record page) name_list"
    by blast
  have "length rows = length name_list"
    using r(2) by (metis length_map)
  with r show "\<exists>rows. write_data page written name_list = (None, written @ rows)
         \<and> length rows = length name_list
         \<and> map Inr rows = map (output_record page) name_list"
    by blast
next
  show "write_data page written name_list = (None, written') \<longleftrightarrow>
      (\<exists>rows. written' = written @ rows
         \<and> map Inr rows = map (output_record page) name_list)"
    by (rule write_data_None_iff)
next
  assume "write_data page written name_list = (None, written')"
  then obtain rows where r: "written' = written @ rows"
      "map Inr rows = map (output_record page) name_list"
    using write_data_None_iff by blast
  have "length rows = length name_list"
    using r(2) by (metis length_map)
  with r(1) show "length written' = length written + length name_list" by simp
next
  assume "write_data page written name_list = (Some e, written')"
  then show "\<exists>before name rest rows. name_list = before @ name # rest
           \<and> output_record page name = Inl e
           \<and> written' = written @ rows
           \<and> map Inr rows = map (output_record page) before"
    by (rule write_data_Some)
qed

theorem write_data_one_row_per_entry_witness:
  "(\<exists>rows. write_data (\<lambda>k. Inl (WikipediaException ''PageError''))
        [[''Name'', ''Link'', ''Wiki Summary'']]
        [\<lparr>contents = [NavigableString ''Smith, John''], href = Some ''/b''\<rparr>,
         \<lparr>contents = [NavigableString ''Picasso, Pablo''], href = Some ''/a''\<rparr>]
      = (None, [[''Name'', ''Link'', ''Wiki Summary'']] @ rows) \<and> length rows = 2)
   \<and> write_data (\<lambda>k. Inl (WikipediaException ''PageError''))
        [[''Name'', ''Link'', ''Wiki Summary'']]
        [\<lparr>contents = [NavigableString ''Smith, John''], href = Some ''/b''\<rparr>,
         \<lparr>contents = [NavigableString ''Picasso, Pablo''], href = Some ''/a''\<rparr>]
      = (None, [[''Name'', ''Link'', ''Wiki Summary'']] @
          [[''Smith, John'', ''https://web.archive.org/b'',
            ''No Wikipedia Entry Available for this artist''],
           [''Picasso, Pablo'', ''https://web.archive.org/a'',
            ''No Wikipedia Entry Available for this artist'']])"
proof -
  let ?page = "\<lambda>k::string. Inl (WikipediaException ''PageError'') :: exception + wiki_page"
  let ?names = "[\<lparr>contents = [NavigableString ''Smith, John''], href = Some ''/b''\<rparr>,
         \<lparr>contents = [NavigableString ''Picasso, Pablo''], href = Some ''/a''\<rparr>]"
  let ?rows = "[[''Smith, John'', ''https://web.archive.org/b'',
            ''No Wikipedia Entry Available for this artist''],
           [''Picasso, Pablo'', ''https://web.archive.org/a'',
            ''No Wikipedia Entry Available for this artist'']]"
  have n: "\<forall>name \<in> set ?names. \<exists>display_name rest h.
      contents name = NavigableString display_name # rest \<and> href name = Some h
      \<and> (\<exists>c \<in> set display_name. \<not> whitespace c)"
    by (simp add: whitespace_def)
  have p: "\<forall>k x. ?page k = Inl x \<longrightarrow> (\<exists>cls. x = WikipediaException cls)"
    by simp
  have a: "output_record ?page \<lparr>contents = [NavigableString ''Smith, John''], href = Some ''/b''\<rparr>
      = Inr [''Smith, John'', ''https://web.archive.org/b'',
          ''No Wikipedia Entry Available for this artist'']" by code_simp
  have b: "output_record ?page \<lparr>contents = [NavigableString ''Picasso, Pablo''], href = Some ''/a''\<rparr>
      = Inr [''Picasso, Pablo'', ''https://web.archive.org/a'',
          ''No Wikipedia Entry Available for this artist'']" by code_simp
  have "\<exists>rows. write_data ?page [[''Name'', ''Link'', ''Wiki Summary'']] ?names
      = (None, [[''Name'', ''Link'', ''Wiki Summary'']] @ rows)
      \<and> length rows = length ?names
      \<and> map Inr rows = map (output_record ?page) ?names"
    using conjunct1 [OF write_data_one_row_per_entry [where page = ?page
      and written = "[[''Name'', ''Link'', ''Wiki Summary'']]" and name_list = ?names]] n p
    by blast
  then obtain rows where
    r: "write_data ?page [[''Name'', ''Link'', ''Wiki Summary'']] ?names
          = (None, [[''Name'', ''Link'', ''Wiki Summary'']] @ rows)"
       "length rows = length ?names"
    by blast
  have "length rows = 2" using r(2) by simp
  with r(1) have "\<exists>rows. write_data ?page [[''Name'', ''Link'', ''Wiki Summary'']] ?names
      = (None, [[''Name'', ''Link'', ''Wiki Summary'']] @ rows) \<and> length rows = 2"
    by blast
  moreover have "write_data ?page [[''Name'', ''Link'', ''Wiki Summary'']] ?names
      = (None, [[''Name'', ''Link'', ''Wiki Summary'']] @ ?rows)"
    using conjunct1 [OF conjunct2 [OF write_data_one_row_per_entry [where page = ?page
      and written = "[[''Name'', ''Link'', ''Wiki Summary'']]" and name_list = ?names
      and written' = "[[''Name'', ''Link'', ''Wiki Summary'']] @ ?rows"]]] a b
    by (simp del: write_data.simps)
  ultimately show ?thesis by (rule conjI)
qed

lemma output_record_not_header:
  "output_record page name \<noteq> Inr [''Name'', ''Link'', ''Wiki Summary'']"
  by (simp add: output_record_Inr_iff)

text \<open>
  C8. Whatever the listing pages and the lookup answer, what \<^verbatim>\<open>main\<close> has written
  begins with the row \<open>Name\<close>, \<open>Link\<close>, \<open>Wiki Summary\<close>; that row occurs nowhere
  else; and every later row belongs to an anchor of a listing page fetched for some
  upper-case letter: it holds the display name of the anchor, which is its first child, its
  href behind the prefix \<open>https://web.archive.org\<close>, and the summary computed for its
  search key.
\<close>

theorem main_header_then_rows:
  "\<exists>rows. snd (main get_name_list page) = [''Name'', ''Link'', ''Wiki Summary''] # rows
     \<and> [''Name'', ''Link'', ''Wiki Summary''] \<notin> set rows
     \<and> (\<forall>r \<in> set rows. \<exists>character \<in> set ascii_uppercase. \<exists>name_list.
           get_name_list (artist_list_url character) = Inr name_list
           \<and> (\<exists>name \<in> set name_list. \<exists>display_name rest h key text.
                 contents name = NavigableString display_name # rest \<and> href name = Some h
                 \<and> wiki_name display_name = Inr key \<and> wiki_summary page key = Inr text
                 \<and> r = [display_name, ''https://web.archive.org'' @ h, text]))"
proof -
  obtain res written' where m: "main_loop get_name_list page
      [[''Name'', ''Link'', ''Wiki Summary'']] ascii_uppercase = (res, written')"
    by (cases "main_loop get_name_list page [[''Name'', ''Link'', ''Wiki Summary'']]
      ascii_uppercase")
  from main_loop_sink [OF m] obtain rows where
    r: "written' = [[''Name'', ''Link'', ''Wiki Summary'']] @ rows"
       "\<forall>r \<in> set rows. \<exists>character \<in> set ascii_uppercase. \<exists>name_list.
             get_name_list (artist_list_url character) = Inr name_list
             \<and> (\<exists>name \<in> set name_list. output_record page name = Inr r)"
    by blast
  have "snd (main get_name_list page) = [''Name'', ''Link'', ''Wiki Summary''] # rows"
    using m r(1) by (simp add: main_def)
  moreover have "[''Name'', ''Link'', ''Wiki Summary''] \<notin> set rows"
    using r(2) output_record_not_header by blast
  moreover have "\<forall>r \<in> set rows. \<exists>character \<in> set ascii_uppercase. \<exists>name_list.
           get_name_list (artist_list_url character) = Inr name_list
           \<and> (\<exists>name \<in> set name_list. \<exists>display_name rest h key text.
                 contents name = NavigableString display_name # rest \<and> href name = Some h
                 \<and> wiki_name display_name = Inr key \<and> wiki_summary page key = Inr text
                 \<and> r = [display_name, ''https://web.archive.org'' @ h, text])"
    using r(2) by (simp only: output_record_Inr_iff)
  ultimately show ?thesis by blast
qed

theorem main_header_then_rows_witness:
  "snd (main (\<lambda>url. if url = artist_list_url CHR ''P''
                     then Inr [\<lparr>contents = [NavigableString ''Picasso, Pablo''], href = Some ''/a''\<rparr>] else Inr [])
        (\<lambda>k. Inr \<lparr>title = ''Pablo Picasso'', categories = [''Spanish painters''],
               summary = ''Pablo Picasso was...''\<rparr>))
     = [[''Name'', ''Link'', ''Wiki Summary''],
        [''Picasso, Pablo'', ''https://web.archive.org/a'', ''Pablo Picasso was...'']]
   \<and> hd (snd (main (\<lambda>url. Inl (OtherException ''ConnectionError''))
        (\<lambda>k. Inl (WikipediaException ''PageError''))))
     = [''Name'', ''Link'', ''Wiki Summary'']
   \<and> count_list (snd (main (\<lambda>url. Inl (OtherException ''ConnectionError''))
        (\<lambda>k. Inl (WikipediaException ''PageError''))))
        [''Name'', ''Link'', ''Wiki Summary''] = 1"
proof -
  let ?g = "\<lambda>url::string. Inl (OtherException ''ConnectionError'') :: exception + anchor list"
  let ?p = "\<lambda>k::string. Inl (WikipediaException ''PageError'') :: exception + wiki_page"
  obtain rows where
    r: "snd (main ?g ?p) = [''Name'', ''Link'', ''Wiki Summary''] # rows"
       "[''Name'', ''Link'', ''Wiki Summary''] \<notin> set rows"
    using main_header_then_rows [of ?g ?p] by blast
  have "count_list rows [''Name'', ''Link'', ''Wiki Summary''] = 0"
    using r(2) by (simp only: count_list_0_iff not_False_eq_True)
  then have "count_list (snd (main ?g ?p)) [''Name'', ''Link'', ''Wiki Summary''] = 1"
    by (simp add: r(1))
  moreover have "hd (snd (main ?g ?p)) = [''Name'', ''Link'', ''Wiki Summary'']"
    by (simp only: r(1) list.sel)
  moreover have "snd (main (\<lambda>url. if url = artist_list_url CHR ''P''
                     then Inr [\<lparr>contents = [NavigableString ''Picasso, Pablo''], href = Some ''/a''\<rparr>] else Inr [])
        (\<lambda>k. Inr \<lparr>title = ''Pablo Picasso'', categories = [''Spanish painters''],
               summary = ''Pablo Picasso was...''\<rparr>))
     = [[''Name'', ''Link'', ''Wiki Summary''],
        [''Picasso, Pablo'', ''https://web.archive.org/a'', ''Pablo Picasso was...'']]"
    by code_simp
  ultimately show ?thesis by simp
qed

end
